theory Spec2Isabelle
  imports Complex_Main
begin

text \<open>
  The class \<open>LibraryManager\<close> of \<open>library_manager.py\<close>: a list of books kept in memory and
  written to a text file, one line for each book, the fields separated by \<open>|\<close>. Every method
  of the class is a function on an explicit state; the built-in operations of Python it
  relies on come first.
\<close>

section \<open>Python strings\<close>

text \<open>
  A Python \<open>str\<close> is modelled as a HOL \<open>string\<close>, each \<open>char\<close> read as the code point
  of that number (0 to 255, the Latin-1 range of Unicode). The built-in string methods the
  library manager calls are written out below for that range.
\<close>

abbreviation LF :: char where "LF \<equiv> CHR 0x0A"
abbreviation CR :: char where "CR \<equiv> CHR 0x0D"
abbreviation BAR :: char where "BAR \<equiv> CHR ''|''"

text \<open>\<open>str.isspace\<close> on one character; \<open>str.strip()\<close> removes exactly these.\<close>

definition is_space :: "char \<Rightarrow> bool" where
  "is_space c = (of_char c \<in> {9, 10, 11, 12, 13, 28, 29, 30, 31, 32, 133, 160 :: nat})"

text \<open>\<open>s.strip()\<close>\<close>

definition strip :: "string \<Rightarrow> string" where
  "strip s = rev (dropWhile is_space (rev (dropWhile is_space s)))"

text \<open>
  \<open>s.lower()\<close>: the capital letters A to Z and the capital letters of Latin-1 (0xC0 to 0xDE
  without the multiplication sign 0xD7) move up by 32, every other character stays.
\<close>

definition lower_char :: "char \<Rightarrow> char" where
  "lower_char c =
     (let n = of_char c :: nat
      in if (65 \<le> n \<and> n \<le> 90) \<or> (192 \<le> n \<and> n \<le> 222 \<and> n \<noteq> 215)
         then char_of (n + 32) else c)"

definition lower :: "string \<Rightarrow> string" where
  "lower s = map lower_char s"

text \<open>\<open>s.split(sep)\<close> for a one-character separator: never an empty list.\<close>

fun split :: "char \<Rightarrow> string \<Rightarrow> string list" where
  "split sep [] = [[]]"
| "split sep (c # cs) =
     (if c = sep then [] # split sep cs
      else (case split sep cs of [] \<Rightarrow> [[c]] | p # ps \<Rightarrow> (c # p) # ps))"

text \<open>\<open>needle in hay\<close> on strings: \<open>needle\<close> occurs in \<open>hay\<close> as a contiguous run.\<close>

fun starts_with :: "string \<Rightarrow> string \<Rightarrow> bool" where
  "starts_with hay [] = True"
| "starts_with [] (c # cs) = False"
| "starts_with (h # hs) (c # cs) = (h = c \<and> starts_with hs cs)"

fun contains :: "string \<Rightarrow> string \<Rightarrow> bool" where
  "contains [] needle = (needle = [])"
| "contains (h # hs) needle = (starts_with (h # hs) needle \<or> contains hs needle)"

text \<open>
  \<open>str(n)\<close> for an integer, as the f-string of \<open>save_library\<close> formats the year. (The
  interpreter's limit of 4300 digits on conversions between \<open>int\<close> and \<open>str\<close> is left out, here
  and in \<open>int_py\<close>.)
\<close>

definition digit_char :: "int \<Rightarrow> char" where
  "digit_char d = char_of (48 + d)"

function decimal :: "int \<Rightarrow> string" where
  "decimal n = (if n < 10 then [digit_char n] else decimal (n div 10) @ [digit_char (n mod 10)])"
  by pat_completeness auto
termination
  by (relation "measure nat") auto

declare decimal.simps [simp del]

definition str_int :: "int \<Rightarrow> string" where
  "str_int i = (if i < 0 then CHR ''-'' # decimal (- i) else decimal i)"

text \<open>
  \<open>int(s)\<close> on a string, base 10, with \<open>None\<close> for \<open>ValueError\<close>. The interpreter skips
  leading white space, reads one optional sign, then the longest run of digits and
  underscores (which may not begin or end with an underscore nor hold two in a row, and may
  not be empty), then skips white space and must be at the end of the string. White space
  here is narrower than for \<open>strip\<close>: the separators 0x1C to 0x1F do not count.
\<close>

definition is_int_space :: "char \<Rightarrow> bool" where
  "is_int_space c = (of_char c \<in> {9, 10, 11, 12, 13, 32, 133, 160 :: nat})"

definition is_digit :: "char \<Rightarrow> bool" where
  "is_digit c = (let n = of_char c :: nat in 48 \<le> n \<and> n \<le> 57)"

definition digit_val :: "char \<Rightarrow> nat" where
  "digit_val c = of_char c - 48"

fun underscores_ok :: "string \<Rightarrow> bool" where
  "underscores_ok [] = True"
| "underscores_ok [c] = (c \<noteq> CHR ''_'')"
| "underscores_ok (c # d # cs) =
     (\<not> (c = CHR ''_'' \<and> d = CHR ''_'') \<and> underscores_ok (d # cs))"

definition digits_value :: "string \<Rightarrow> nat" where
  "digits_value ds = foldl (\<lambda>acc c. 10 * acc + digit_val c) 0 (filter is_digit ds)"

definition int_py :: "string \<Rightarrow> int option" where
  "int_py s =
     (let t = dropWhile is_int_space s;
          neg = (t \<noteq> [] \<and> hd t = CHR ''-'');
          u = (if t \<noteq> [] \<and> (hd t = CHR ''+'' \<or> hd t = CHR ''-'') then tl t else t);
          ds = takeWhile (\<lambda>c. is_digit c \<or> c = CHR ''_'') u;
          rest = dropWhile (\<lambda>c. is_digit c \<or> c = CHR ''_'') u
      in if ds = [] \<or> hd ds = CHR ''_'' \<or> \<not> underscores_ok ds
            \<or> dropWhile is_int_space rest \<noteq> []
         then None
         else Some (if neg then - int (digits_value ds) else int (digits_value ds)))"

section \<open>Python floats\<close>

text \<open>
  A Python float is an IEEE 754 double. Its value is kept here as the rational number it
  stands for, and every arithmetic result is rounded to the nearest double, ties to the even
  significand of 53 bits. The range of the exponent is not modelled: the rounding is that of
  the machine for magnitudes from \<open>2\<^sup>-\<^sup>1\<^sup>0\<^sup>2\<^sup>2\<close> up to \<open>2\<^sup>1\<^sup>0\<^sup>2\<^sup>4\<close>, which covers the quotient of
  two list lengths and its product with 100.
\<close>

function bit_length :: "int \<Rightarrow> int" where
  "bit_length n = (if n \<le> 0 then 0 else 1 + bit_length (n div 2))"
  by pat_completeness auto
termination
  by (relation "measure nat") auto

declare bit_length.simps [simp del]

definition pow2 :: "int \<Rightarrow> rat" where
  "pow2 k = (if 0 \<le> k then 2 ^ nat k else 1 / 2 ^ nat (- k))"

definition round_half_even :: "rat \<Rightarrow> int" where
  "round_half_even x =
     (let n = \<lfloor>x\<rfloor>; d = x - of_int n
      in if d < 1 / 2 then n else if 1 / 2 < d then n + 1 else if even n then n else n + 1)"

text \<open>The binary exponent \<open>e\<close> of a positive rational \<open>x\<close>: \<open>2\<^sup>e \<le> x < 2\<^sup>e\<^sup>+\<^sup>1\<close>.\<close>

definition exponent :: "rat \<Rightarrow> int" where
  "exponent x =
     (let (p, q) = quotient_of x;
          e = bit_length p - bit_length q
      in if pow2 e \<le> x then e else e - 1)"

definition to_double :: "rat \<Rightarrow> rat" where
  "to_double x =
     (if x = 0 then 0
      else let e = exponent \<bar>x\<bar> - 52
           in sgn x * of_int (round_half_even (\<bar>x\<bar> / pow2 e)) * pow2 e)"

text \<open>\<open>a / b\<close> on two integers (\<open>b\<close> not zero) and \<open>x * y\<close> on two floats.\<close>

definition truediv :: "int \<Rightarrow> int \<Rightarrow> rat" where
  "truediv a b = to_double (of_int a / of_int b)"

definition float_mul :: "rat \<Rightarrow> rat \<Rightarrow> rat" where
  "float_mul x y = to_double (x * y)"

text \<open>The format \<open>.1f\<close>: the decimal with one digit after the point nearest to the float.\<close>

definition format_1f :: "rat \<Rightarrow> string" where
  "format_1f x =
     (let tenths = round_half_even (\<bar>x\<bar> * 10)
      in (if x < 0 then ''-'' else []) @ decimal (tenths div 10) @ ''.'' @ decimal (tenths mod 10))"

section \<open>Text files\<close>

text \<open>
  The file is opened in text mode with universal newlines. On reading, \<open>\r\n\<close> and a lone
  \<open>\r\<close> arrive as \<open>\n\<close>, and iterating over the file yields the lines, each with its
  closing \<open>\n\<close> (the last line may lack one).
\<close>

fun universal_newlines :: "string \<Rightarrow> string" where
  "universal_newlines [] = []"
| "universal_newlines [c] = [if c = CR then LF else c]"
| "universal_newlines (c # d # cs) =
     (if c = CR then (if d = LF then LF # universal_newlines cs
                      else LF # universal_newlines (d # cs))
      else c # universal_newlines (d # cs))"

fun text_lines :: "string \<Rightarrow> string list" where
  "text_lines [] = []"
| "text_lines (c # cs) =
     (if c = LF then [LF] # text_lines cs
      else (case text_lines cs of [] \<Rightarrow> [[c]] | l # ls \<Rightarrow> (c # l) # ls))"

section \<open>The library manager\<close>

text \<open>A book is the dictionary built by \<open>add_book\<close> and by \<open>load_library\<close>.\<close>

record book =
  title :: string
  author :: string
  year :: int
  genre :: string
  read :: bool
  date_added :: string

text \<open>What the program prints, one constructor for each \<open>print\<close> of the class.\<close>

datatype message =
    BookAdded
  | BookRemoved
  | BookNotFound
  | LibraryEmpty
  | TotalBooks nat
  | BooksRead nat
  | PercentageRead string
  | LibrarySaved
  | ErrorSaving
  | InvalidYear string string
  | LibraryLoaded
  | ErrorLoading
  | NoLibraryFile

text \<open>
  The state a method works on: the list \<open>self.library\<close>, the text of the file at
  \<open>self.file_path\<close> (\<open>None\<close> while the file does not exist) and what was printed so far.
\<close>

record state =
  library :: "book list"
  file_text :: "string option"
  out :: "message list"

definition say :: "message \<Rightarrow> state \<Rightarrow> state" where
  "say m s = s\<lparr>out := out s @ [m]\<rparr>"

text \<open>
  What the operating system does to a file access is not decided by the program, so each
  method that touches the file takes the outcome as an argument. A failed write leaves the
  file in a condition the program does not control (untouched if \<open>open\<close> failed, cut short
  if a later write did): \<open>WriteFails f\<close> carries that condition. A failed read raises after
  the loop over the lines has handled some number of them: \<open>ReadFails n\<close> (with \<open>n = 0\<close> when
  \<open>open\<close> itself raises).
\<close>

datatype write_io = WriteOk | WriteFails "string option"

datatype read_io = ReadOk | ReadFails nat

subsection \<open>\<open>save_library\<close>\<close>

text \<open>The line written for one book, ending in \<open>\n\<close> (the platform's line separator).\<close>

definition book_line :: "book \<Rightarrow> string" where
  "book_line b =
     title b @ [BAR] @ author b @ [BAR] @ str_int (year b) @ [BAR] @ genre b @ [BAR]
     @ (if read b then ''Read'' else ''Unread'') @ [BAR] @ date_added b @ [LF]"

text \<open>The same line without its closing \<open>\n\<close>, as \<open>strip\<close> is meant to give it back.\<close>

definition line_body :: "book \<Rightarrow> string" where
  "line_body b =
     title b @ BAR # author b @ BAR # str_int (year b) @ BAR # genre b @ BAR
     # (if read b then ''Read'' else ''Unread'') @ BAR # date_added b"

text \<open>
  Opening with mode \<open>'w'\<close> empties the file, then every book is written in order. Any
  exception is caught and printed; the list of books is not touched on either path.
\<close>

definition save_library :: "write_io \<Rightarrow> state \<Rightarrow> state" where
  "save_library io s =
     (case io of
        WriteOk \<Rightarrow> say LibrarySaved (s\<lparr>file_text := Some (concat (map book_line (library s)))\<rparr>)
      | WriteFails f \<Rightarrow> say ErrorSaving (s\<lparr>file_text := f\<rparr>))"

subsection \<open>\<open>add_book\<close>, \<open>remove_book\<close>, the searches\<close>

text \<open>\<open>today\<close> is \<open>datetime.now().strftime("%Y-%m-%d")\<close>, read from the clock by the caller.\<close>

definition add_book ::
  "string \<Rightarrow> string \<Rightarrow> int \<Rightarrow> string \<Rightarrow> bool \<Rightarrow> string \<Rightarrow> write_io \<Rightarrow> state \<Rightarrow> state" where
  "add_book title' author' year' genre' read_status today io s =
     (let book = \<lparr>title = title', author = author', year = year', genre = genre',
                  read = read_status, date_added = today\<rparr>
      in say BookAdded (save_library io (s\<lparr>library := library s @ [book]\<rparr>)))"

definition remove_book :: "string \<Rightarrow> write_io \<Rightarrow> state \<Rightarrow> state" where
  "remove_book title' io s =
     (let initial_count = length (library s);
          s1 = s\<lparr>library := filter (\<lambda>book. lower (title book) \<noteq> lower title') (library s)\<rparr>
      in if length (library s1) < initial_count
         then say BookRemoved (save_library io s1)
         else say BookNotFound s1)"

text \<open>The searches return the matches together with the state they leave behind.\<close>

definition search_by_title :: "string \<Rightarrow> state \<Rightarrow> book list \<times> state" where
  "search_by_title title' s =
     (filter (\<lambda>book. contains (lower (title book)) (lower title')) (library s), s)"

definition search_by_author :: "string \<Rightarrow> state \<Rightarrow> book list \<times> state" where
  "search_by_author author' s =
     (filter (\<lambda>book. contains (lower (author book)) (lower author')) (library s), s)"

subsection \<open>\<open>load_library\<close>\<close>

text \<open>
  The body of the loop over the lines of the file: blank lines and lines with fewer than
  six fields change nothing; a year that \<open>int\<close> rejects is printed in a warning and becomes 0.
\<close>

definition load_line :: "state \<Rightarrow> string \<Rightarrow> state" where
  "load_line s line =
     (if strip line \<noteq> [] then
        (case split BAR (strip line) of
           title' # author' # year' # genre' # read_status # date_added' # _ \<Rightarrow>
             (let s1 = (case int_py year' of
                          Some n \<Rightarrow> s
                        | None \<Rightarrow> say (InvalidYear year' title') s);
                  year_int = (case int_py year' of Some n \<Rightarrow> n | None \<Rightarrow> 0);
                  book = \<lparr>title = title', author = author', year = year_int, genre = genre',
                          read = (read_status = ''Read''), date_added = date_added'\<rparr>
              in s1\<lparr>library := library s1 @ [book]\<rparr>)
         | _ \<Rightarrow> s)
      else s)"

text \<open>
  Without a file the list is left as it is. Otherwise the list is emptied and filled line by
  line; an exception on the way empties it again.
\<close>

definition load_library :: "read_io \<Rightarrow> state \<Rightarrow> state" where
  "load_library io s =
     (case file_text s of
        None \<Rightarrow> say NoLibraryFile s
      | Some text \<Rightarrow>
          (let lines = text_lines (universal_newlines text)
           in case io of
                ReadOk \<Rightarrow> say LibraryLoaded (foldl load_line (s\<lparr>library := []\<rparr>) lines)
              | ReadFails n \<Rightarrow>
                  (say ErrorLoading (foldl load_line (s\<lparr>library := []\<rparr>) (take n lines)))
                    \<lparr>library := []\<rparr>))"

subsection \<open>\<open>display_statistics\<close>\<close>

text \<open>
  An empty library is reported as such and nothing else is printed. Otherwise three lines
  follow: the number of books, the number of books read, and the percentage
  \<open>(read_books / total_books) * 100\<close> in the format \<open>.1f\<close>.
\<close>

definition display_statistics :: "state \<Rightarrow> state" where
  "display_statistics s =
     (let total_books = length (library s)
      in if total_books = 0 then say LibraryEmpty s
         else
           (let read_books = length (filter read (library s));
                percentage_read = float_mul (truediv (int read_books) (int total_books)) 100
            in say (PercentageRead (format_1f percentage_read))
                 (say (BooksRead read_books) (say (TotalBooks total_books) s))))"

section \<open>Sample data\<close>

text \<open>Four books and one library file, used where a statement is tried on concrete input.\<close>

definition dune :: book where
  "dune = \<lparr>title = ''Dune'', author = ''Frank Herbert'', year = 1965, genre = ''SF'',
            read = True, date_added = ''2024-01-01''\<rparr>"

definition dune_small :: book where
  "dune_small = \<lparr>title = ''dune'', author = ''Frank Herbert'', year = 1965, genre = ''SF'',
                  read = True, date_added = ''2024-01-02''\<rparr>"

definition messiah :: book where
  "messiah = \<lparr>title = ''Dune Messiah'', author = ''Frank Herbert'', year = 1969,
               genre = ''SF'', read = True, date_added = ''2024-01-03''\<rparr>"

definition emma :: book where
  "emma = \<lparr>title = ''Emma'', author = ''Jane Austen'', year = 1815, genre = ''Novel'',
            read = False, date_added = ''2024-01-04''\<rparr>"

definition sample_file :: string where
  "sample_file =
     ''OnlyTwo|Fields'' @ [LF]
     @ ''Dune|Frank Herbert|abcd|SF|Read|2024-01-01'' @ [LF]
     @ ''Emma|Jane Austen|1815|Novel|read|2024-01-04'' @ [LF]"

section \<open>Auxiliary facts\<close>

lemma starts_with_refl: "starts_with h h"
  by (induction h) simp_all

lemma contains_refl: "contains h h"
  by (cases h) (simp_all add: starts_with_refl)

lemma contains_empty: "contains h []"
  by (cases h) simp_all

lemma starts_with_iff: "starts_with h n \<longleftrightarrow> (\<exists>ss. h = n @ ss)"
  by (induction h n rule: starts_with.induct) auto

text \<open>\<open>contains\<close> is containment as a contiguous run of characters.\<close>

lemma contains_iff: "contains h n \<longleftrightarrow> (\<exists>ps ss. h = ps @ n @ ss)"
proof (induction h)
  case Nil
  then show ?case by auto
next
  case (Cons c cs)
  show ?case
  proof
    assume "contains (c # cs) n"
    then consider "starts_with (c # cs) n" | "contains cs n" by auto
    then show "\<exists>ps ss. c # cs = ps @ n @ ss"
    proof cases
      case 1
      then obtain ss where "c # cs = n @ ss" by (auto simp: starts_with_iff)
      then have "c # cs = [] @ n @ ss" by simp
      then show ?thesis by blast
    next
      case 2
      then obtain ps ss where "cs = ps @ n @ ss" using Cons.IH by blast
      then have "c # cs = (c # ps) @ n @ ss" by simp
      then show ?thesis by blast
    qed
  next
    assume "\<exists>ps ss. c # cs = ps @ n @ ss"
    then obtain ps ss where e: "c # cs = ps @ n @ ss" by blast
    show "contains (c # cs) n"
    proof (cases ps)
      case Nil
      with e have "starts_with (c # cs) n" by (auto simp: starts_with_iff)
      then show ?thesis by simp
    next
      case (Cons p ps')
      with e have "cs = ps' @ n @ ss" by simp
      then have "contains cs n" using Cons.IH by blast
      then show ?thesis by simp
    qed
  qed
qed

lemma library_say: "library (say m s) = library s"
  by (simp add: say_def)

lemma library_save: "library (save_library io s) = library s"
  by (simp add: save_library_def say_def split: write_io.splits)

lemma filter_shorter_iff: "length (filter P xs) < length xs \<longleftrightarrow> (\<exists>x \<in> set xs. \<not> P x)"
  by (induction xs) (auto simp: less_Suc_eq_le)

lemma remove_book_cases:
  "remove_book t io s =
     (if \<exists>b \<in> set (library s). lower (title b) = lower t
      then say BookRemoved
             (save_library io (s\<lparr>library := filter (\<lambda>b. lower (title b) \<noteq> lower t) (library s)\<rparr>))
      else say BookNotFound s)"
proof (cases "\<exists>b \<in> set (library s). lower (title b) = lower t")
  case True
  then show ?thesis
    by (simp add: remove_book_def Let_def filter_shorter_iff)
next
  case False
  then have "filter (\<lambda>b. lower (title b) \<noteq> lower t) (library s) = library s"
    by (simp add: filter_id_conv)
  with False show ?thesis
    by (simp add: remove_book_def Let_def)
qed

lemma library_remove_book:
  "library (remove_book t io s) = filter (\<lambda>b. lower (title b) \<noteq> lower t) (library s)"
  by (simp add: remove_book_def Let_def library_say library_save)

lemma length_filter_split:
  "length (filter (\<lambda>x. \<not> P x) xs) + length (filter P xs) = length xs"
  by (induction xs) auto

lemma search_by_title_add:
  "fst (search_by_title q (add_book t a y g r today io s))
   = fst (search_by_title q s)
     @ (if contains (lower t) (lower q)
        then [\<lparr>title = t, author = a, year = y, genre = g, read = r, date_added = today\<rparr>]
        else [])"
  by (simp add: search_by_title_def add_book_def Let_def library_say library_save)

lemma split_not_Nil: "split sep s \<noteq> []"
  by (induction s) (auto split: list.splits)

lemma load_line_fields:
  assumes "split BAR (strip line) = t # a # y # g # rs # d # rest"
  shows "load_line s line =
           (case int_py y of Some n \<Rightarrow> s | None \<Rightarrow> say (InvalidYear y t) s)
             \<lparr>library := library s
                @ [\<lparr>title = t, author = a, year = (case int_py y of Some n \<Rightarrow> n | None \<Rightarrow> 0),
                    genre = g, read = (rs = ''Read''), date_added = d\<rparr>]\<rparr>"
proof -
  have "strip line \<noteq> []"
    using assms by (cases "strip line") auto
  with assms show ?thesis
    by (simp add: load_line_def Let_def say_def split: option.splits)
qed

lemma load_line_short:
  assumes "length (split BAR (strip line)) < 6"
  shows "load_line s line = s"
  using assms by (auto simp: load_line_def split: list.splits)

lemma load_line_blank: "strip line = [] \<Longrightarrow> load_line s line = s"
  by (simp add: load_line_def)

lemma library_load_line:
  "library (load_line s line) = library s @ library (load_line (s'\<lparr>library := []\<rparr>) line)"
  by (simp add: load_line_def Let_def say_def split: list.splits option.splits)

lemma library_foldl_load_line:
  "library (foldl load_line s ls)
   = library s @ concat (map (\<lambda>l. library (load_line (s'\<lparr>library := []\<rparr>) l)) ls)"
proof (induction ls arbitrary: s)
  case Nil
  show ?case by simp
next
  case (Cons l ls)
  have "library (foldl load_line s (l # ls)) = library (foldl load_line (load_line s l) ls)"
    by simp
  also have "\<dots> = library (load_line s l)
                   @ concat (map (\<lambda>l. library (load_line (s'\<lparr>library := []\<rparr>) l)) ls)"
    by (rule Cons.IH)
  also have "library (load_line s l) = library s @ library (load_line (s'\<lparr>library := []\<rparr>) l)"
    by (rule library_load_line)
  finally show ?case by simp
qed

subsection \<open>Digits\<close>

lemma of_char_digit_char:
  assumes "0 \<le> d" and "d < 10"
  shows "(of_char (digit_char d) :: nat) = 48 + nat d"
proof -
  have "48 + d = int (48 + nat d)" using assms by simp
  then have "digit_char d = char_of (48 + nat d)"
    unfolding digit_char_def by (metis char_of_nat)
  then have "(of_char (digit_char d) :: nat) = (48 + nat d) mod 256" by simp
  also have "\<dots> = 48 + nat d" using assms by simp
  finally show ?thesis .
qed

lemma is_digit_digit_char: "0 \<le> d \<Longrightarrow> d < 10 \<Longrightarrow> is_digit (digit_char d)"
  by (simp add: is_digit_def of_char_digit_char)

lemma digit_val_digit_char: "0 \<le> d \<Longrightarrow> d < 10 \<Longrightarrow> digit_val (digit_char d) = nat d"
  by (simp add: digit_val_def of_char_digit_char)

lemma is_digit_not_special:
  assumes "is_digit c"
  shows "\<not> is_int_space c" and "c \<noteq> CHR ''-''" and "c \<noteq> CHR ''+''" and "c \<noteq> CHR ''_''"
    and "c \<noteq> BAR" and "c \<noteq> LF" and "c \<noteq> CR"
  using assms by (auto simp: is_digit_def is_int_space_def)

lemma decimal_digits: "0 \<le> n \<Longrightarrow> c \<in> set (decimal n) \<Longrightarrow> is_digit c"
proof (induction n rule: decimal.induct)
  case (1 n)
  show ?case
  proof (cases "n < 10")
    case True
    with "1.prems" show ?thesis
      by (simp add: decimal.simps [of n] is_digit_digit_char)
  next
    case False
    with "1.prems" have "c \<in> set (decimal (n div 10)) \<or> c = digit_char (n mod 10)"
      by (auto simp: decimal.simps [of n])
    then show ?thesis
    proof
      assume "c \<in> set (decimal (n div 10))"
      with False "1.prems" "1.IH" show ?thesis by simp
    next
      assume "c = digit_char (n mod 10)"
      then show ?thesis by (simp add: is_digit_digit_char)
    qed
  qed
qed

lemma decimal_not_Nil: "decimal n \<noteq> []"
  by (subst decimal.simps) simp

lemma digits_value_snoc:
  "is_digit c \<Longrightarrow> digits_value (ds @ [c]) = 10 * digits_value ds + digit_val c"
  by (simp add: digits_value_def)

lemma digits_value_decimal: "0 \<le> n \<Longrightarrow> digits_value (decimal n) = nat n"
proof (induction n rule: decimal.induct)
  case (1 n)
  show ?case
  proof (cases "n < 10")
    case True
    with "1.prems" show ?thesis
      by (simp add: decimal.simps [of n] digits_value_def is_digit_digit_char digit_val_digit_char)
  next
    case False
    with "1.prems" "1.IH" have ih: "digits_value (decimal (n div 10)) = nat (n div 10)"
      by simp
    have "digits_value (decimal n)
          = 10 * digits_value (decimal (n div 10)) + digit_val (digit_char (n mod 10))"
      using False by (simp add: decimal.simps [of n] digits_value_snoc is_digit_digit_char)
    also have "\<dots> = 10 * nat (n div 10) + nat (n mod 10)"
      by (simp add: ih digit_val_digit_char)
    also have "\<dots> = nat n"
    proof -
      have "int (10 * nat (n div 10) + nat (n mod 10)) = n"
        using "1.prems" by (simp add: pos_imp_zdiv_nonneg_iff)
      then show ?thesis by linarith
    qed
    finally show ?thesis .
  qed
qed

lemma underscores_ok_digits: "\<forall>c \<in> set ds. c \<noteq> CHR ''_'' \<Longrightarrow> underscores_ok ds"
  by (induction ds rule: underscores_ok.induct) simp_all

lemma int_py_digits:
  assumes ne: "ds \<noteq> []" and dig: "\<forall>c \<in> set ds. is_digit c"
  shows "int_py ds = Some (int (digits_value ds))"
    and "int_py (CHR ''-'' # ds) = Some (- int (digits_value ds))"
proof -
  from ne obtain c cs where ds: "ds = c # cs" by (cases ds) auto
  with dig have c: "is_digit c" by simp
  have tw: "takeWhile (\<lambda>c. is_digit c \<or> c = CHR ''_'') ds = ds"
    using dig by (simp add: takeWhile_eq_all_conv)
  have dw: "dropWhile (\<lambda>c. is_digit c \<or> c = CHR ''_'') ds = []"
    using dig by simp
  have us: "underscores_ok ds"
    using dig by (auto intro!: underscores_ok_digits dest: is_digit_not_special(4))
  have sp: "dropWhile is_int_space ds = ds"
    using c ds by (simp add: is_digit_not_special(1))
  have hd: "hd ds \<noteq> CHR ''-''" "hd ds \<noteq> CHR ''+''" "hd ds \<noteq> CHR ''_''"
    using c ds by (auto dest: is_digit_not_special)
  show "int_py ds = Some (int (digits_value ds))"
    using ne hd by (simp add: int_py_def Let_def sp tw dw us)
  have minus: "\<not> is_int_space CHR ''-''"
    by (simp add: is_int_space_def)
  show "int_py (CHR ''-'' # ds) = Some (- int (digits_value ds))"
    using ne hd by (simp add: int_py_def Let_def minus tw dw us)
qed

lemma int_py_str_int: "int_py (str_int i) = Some i"
proof (cases "i < 0")
  case True
  then have "0 \<le> - i" by simp
  then have "int_py (CHR ''-'' # decimal (- i)) = Some (- int (digits_value (decimal (- i))))"
    by (intro int_py_digits decimal_not_Nil ballI decimal_digits)
  with True show ?thesis
    by (simp add: str_int_def digits_value_decimal)
next
  case False
  then have "0 \<le> i" by simp
  then have "int_py (decimal i) = Some (int (digits_value (decimal i)))"
    by (intro int_py_digits decimal_not_Nil ballI decimal_digits)
  with False show ?thesis
    by (simp add: str_int_def digits_value_decimal)
qed

lemma str_int_chars:
  assumes "c \<in> set (str_int i)"
  shows "c \<noteq> BAR" and "c \<noteq> LF" and "c \<noteq> CR"
proof -
  have "is_digit c \<or> c = CHR ''-''"
    using assms by (auto simp: str_int_def split: if_splits dest: decimal_digits [rotated])
  then show "c \<noteq> BAR" and "c \<noteq> LF" and "c \<noteq> CR"
    by (auto dest: is_digit_not_special)
qed

subsection \<open>Splitting and stripping\<close>

lemma split_no_sep: "sep \<notin> set s \<Longrightarrow> split sep s = [s]"
  by (induction s) auto

lemma split_append: "sep \<notin> set a \<Longrightarrow> split sep (a @ sep # r) = a # split sep r"
  by (induction a) auto

lemma is_space_LF: "is_space LF"
  by (simp add: is_space_def)

lemma not_is_space_BAR: "\<not> is_space BAR"
  by (simp add: is_space_def)

lemma dropWhile_hd: "xs \<noteq> [] \<Longrightarrow> \<not> P (hd xs) \<Longrightarrow> dropWhile P xs = xs"
  by (cases xs) auto

lemma strip_line:
  assumes "s \<noteq> []" and "\<not> is_space (hd s)" and "\<not> is_space (last s)"
  shows "strip (s @ [LF]) = s"
proof -
  have "dropWhile is_space (s @ [LF]) = s @ [LF]"
    using assms(1,2) by (intro dropWhile_hd) auto
  moreover have "dropWhile is_space (rev s) = rev s"
    using assms(1,3) by (intro dropWhile_hd) (auto simp: hd_rev)
  ultimately show ?thesis by (simp add: strip_def is_space_LF)
qed

lemma split_six:
  assumes "BAR \<notin> set t" and "BAR \<notin> set a" and "BAR \<notin> set y" and "BAR \<notin> set g"
    and "BAR \<notin> set r" and "BAR \<notin> set d"
  shows "split BAR (t @ BAR # a @ BAR # y @ BAR # g @ BAR # r @ BAR # d) = [t, a, y, g, r, d]"
  using assms by (simp add: split_append split_no_sep)

subsection \<open>Lines of a text\<close>

lemma universal_newlines_id: "CR \<notin> set s \<Longrightarrow> universal_newlines s = s"
  by (induction s rule: universal_newlines.induct) auto

lemma text_lines_line:
  "LF \<notin> set body \<Longrightarrow> text_lines (body @ LF # r) = (body @ [LF]) # text_lines r"
  by (induction body) auto

lemma text_lines_concat:
  assumes "\<forall>b \<in> set bs. \<exists>body. f b = body @ [LF] \<and> LF \<notin> set body"
  shows "text_lines (concat (map f bs)) = map f bs"
  using assms
proof (induction bs)
  case Nil
  show ?case by simp
next
  case (Cons b bs)
  then obtain body where b: "f b = body @ [LF]" "LF \<notin> set body" by auto
  have "text_lines (concat (map f (b # bs))) = text_lines (body @ LF # concat (map f bs))"
    by (simp add: b)
  also have "\<dots> = (body @ [LF]) # text_lines (concat (map f bs))"
    using b(2) by (rule text_lines_line)
  also have "text_lines (concat (map f bs)) = map f bs"
    using Cons by simp
  finally show ?case by (simp add: b)
qed

subsection \<open>One line written, one line read\<close>

lemma book_line_body: "book_line b = line_body b @ [LF]"
  by (simp add: book_line_def line_body_def)

lemma split_line_body:
  assumes "BAR \<notin> set (title b)" and "BAR \<notin> set (author b)" and "BAR \<notin> set (genre b)"
    and "BAR \<notin> set (date_added b)"
  shows "split BAR (line_body b)
         = [title b, author b, str_int (year b), genre b,
            if read b then ''Read'' else ''Unread'', date_added b]"
proof -
  have y: "BAR \<notin> set (str_int (year b))"
    using str_int_chars(1) by blast
  have r: "BAR \<notin> set (if read b then ''Read'' else ''Unread'')"
    by simp
  show ?thesis
    unfolding line_body_def
    by (rule split_six [OF assms(1) assms(2) y assms(3) r assms(4)])
qed

lemma line_body_ends:
  assumes "title b \<noteq> [] \<longrightarrow> \<not> is_space (hd (title b))"
    and "date_added b \<noteq> [] \<longrightarrow> \<not> is_space (last (date_added b))"
  shows "line_body b \<noteq> []" and "\<not> is_space (hd (line_body b))"
    and "\<not> is_space (last (line_body b))"
proof -
  show "line_body b \<noteq> []" by (simp add: line_body_def)
  show "\<not> is_space (hd (line_body b))"
    using assms(1) by (cases "title b") (simp_all add: line_body_def not_is_space_BAR)
  have "last (line_body b) = (if date_added b = [] then BAR else last (date_added b))"
    by (simp add: line_body_def)
  with assms(2) show "\<not> is_space (last (line_body b))"
    by (simp add: not_is_space_BAR)
qed

lemma LF_notin_line_body:
  assumes "\<forall>c \<in> set (title b @ author b @ genre b @ date_added b). c \<noteq> LF"
  shows "LF \<notin> set (line_body b)"
proof -
  have "LF \<notin> set (str_int (year b))" using str_int_chars(2) by blast
  with assms show ?thesis by (auto simp: line_body_def)
qed

lemma CR_notin_book_line:
  assumes "\<forall>c \<in> set (title b @ author b @ genre b @ date_added b). c \<noteq> CR"
  shows "CR \<notin> set (book_line b)"
proof -
  have "CR \<notin> set (str_int (year b))" using str_int_chars(3) by blast
  with assms show ?thesis by (auto simp: book_line_def)
qed

lemma status_is_Read: "((if r then ''Read'' else ''Unread'') = ''Read'') = r"
  by simp

lemma load_line_book_line:
  assumes "\<forall>c \<in> set (title b @ author b @ genre b @ date_added b). c \<noteq> BAR"
    and "title b \<noteq> [] \<longrightarrow> \<not> is_space (hd (title b))"
    and "date_added b \<noteq> [] \<longrightarrow> \<not> is_space (last (date_added b))"
  shows "load_line s (book_line b) = s\<lparr>library := library s @ [b]\<rparr>"
proof -
  have st: "strip (book_line b) = line_body b"
    unfolding book_line_body using assms(2,3) by (intro strip_line line_body_ends)
  have sp: "split BAR (strip (book_line b))
       = title b # author b # str_int (year b) # genre b
         # (if read b then ''Read'' else ''Unread'') # date_added b # []"
    unfolding st using assms(1) by (intro split_line_body) auto
  have "\<lparr>title = title b, author = author b, year = year b, genre = genre b,
         read = read b, date_added = date_added b\<rparr> = b"
    by simp
  then show ?thesis
    by (simp add: load_line_fields [OF sp] int_py_str_int status_is_Read)
qed

lemma foldl_load_line_book_lines:
  assumes "\<forall>b \<in> set bs.
      (\<forall>c \<in> set (title b @ author b @ genre b @ date_added b). c \<noteq> BAR)
      \<and> (title b \<noteq> [] \<longrightarrow> \<not> is_space (hd (title b)))
      \<and> (date_added b \<noteq> [] \<longrightarrow> \<not> is_space (last (date_added b)))"
  shows "foldl load_line s (map book_line bs) = s\<lparr>library := library s @ bs\<rparr>"
  using assms
proof (induction bs arbitrary: s)
  case Nil
  show ?case by simp
next
  case (Cons b bs)
  then have "load_line s (book_line b) = s\<lparr>library := library s @ [b]\<rparr>"
    by (intro load_line_book_line) auto
  moreover have "foldl load_line (s\<lparr>library := library s @ [b]\<rparr>) (map book_line bs)
        = (s\<lparr>library := library s @ [b]\<rparr>)\<lparr>library := library (s\<lparr>library := library s @ [b]\<rparr>) @ bs\<rparr>"
    using Cons.prems by (intro Cons.IH) auto
  ultimately show ?case by simp
qed

subsection \<open>Rounding to a double\<close>

lemma pow2_powi: "pow2 k = 2 powi k"
  by (simp add: pow2_def power_int_def power_inverse inverse_eq_divide flip: power_one_over)

lemma pow2_pos: "0 < pow2 k"
  by (simp add: pow2_powi)

lemma pow2_add: "pow2 (a + b) = pow2 a * pow2 b"
  by (simp add: pow2_powi power_int_add)

lemma pow2_nat: "0 \<le> k \<Longrightarrow> pow2 k = 2 ^ nat k"
  by (simp add: pow2_def)

lemma bit_length_bounds:
  "0 < n \<Longrightarrow> 1 \<le> bit_length n \<and> 2 ^ nat (bit_length n - 1) \<le> n \<and> n < 2 ^ nat (bit_length n)"
proof (induction n rule: bit_length.induct)
  case (1 n)
  show ?case
  proof (cases "n = 1")
    case True
    have "bit_length (1 div 2) = 0" by (subst bit_length.simps) simp
    then have "bit_length 1 = 1" by (subst bit_length.simps) simp
    with True show ?thesis by simp
  next
    case False
    with "1.prems" have h: "0 < n div 2" by simp
    with "1.IH" "1.prems" have ih: "1 \<le> bit_length (n div 2)"
      "2 ^ nat (bit_length (n div 2) - 1) \<le> n div 2" "n div 2 < 2 ^ nat (bit_length (n div 2))"
      by simp_all
    have bl: "bit_length n = 1 + bit_length (n div 2)"
      using "1.prems" by (subst bit_length.simps) simp
    have e1: "nat (bit_length n - 1) = Suc (nat (bit_length (n div 2) - 1))"
      using ih(1) bl by simp
    have e2: "nat (bit_length n) = Suc (nat (bit_length (n div 2)))"
      using ih(1) bl by simp
    have "2 * 2 ^ nat (bit_length (n div 2) - 1) \<le> n"
      using ih(2) by linarith
    then have a: "2 ^ nat (bit_length n - 1) \<le> n"
      unfolding e1 by simp
    have "n < 2 * 2 ^ nat (bit_length (n div 2))"
      using ih(3) by linarith
    then have b: "n < 2 ^ nat (bit_length n)"
      unfolding e2 by simp
    have c: "1 \<le> bit_length n"
      using bl ih(1) by linarith
    from a b c show ?thesis by blast
  qed
qed

lemma exponent_bounds:
  assumes "0 < x"
  shows "pow2 (exponent x) \<le> x" and "x < pow2 (exponent x + 1)"
proof -
  obtain p q where pq: "quotient_of x = (p, q)" by (cases "quotient_of x")
  then have q: "0 < q" by (rule quotient_of_denom_pos)
  have x: "x = of_int p / of_int q" using pq by (rule quotient_of_div)
  with assms q have p: "0 < p" by (simp add: zero_less_divide_iff)
  let ?bp = "bit_length p" and ?bq = "bit_length q"
  let ?e = "?bp - ?bq"
  note bp = bit_length_bounds [OF p] and bq = bit_length_bounds [OF q]
  have plo: "pow2 (?bp - 1) \<le> of_int p"
  proof -
    have "(of_int (2 ^ nat (?bp - 1)) :: rat) \<le> of_int p" using bp by (simp only: of_int_le_iff)
    then show ?thesis using bp by (simp add: pow2_nat)
  qed
  have phi: "of_int p < pow2 ?bp"
  proof -
    have "(of_int p :: rat) < of_int (2 ^ nat ?bp)" using bp by (simp only: of_int_less_iff)
    then show ?thesis using bp by (simp add: pow2_nat)
  qed
  have qlo: "pow2 (?bq - 1) \<le> of_int q"
  proof -
    have "(of_int (2 ^ nat (?bq - 1)) :: rat) \<le> of_int q" using bq by (simp only: of_int_le_iff)
    then show ?thesis using bq by (simp add: pow2_nat)
  qed
  have qhi: "of_int q < pow2 ?bq"
  proof -
    have "(of_int q :: rat) < of_int (2 ^ nat ?bq)" using bq by (simp only: of_int_less_iff)
    then show ?thesis using bq by (simp add: pow2_nat)
  qed
  have qpos: "(0::rat) < of_int q" using q by simp
  have lo: "pow2 (?e - 1) \<le> x"
  proof -
    have "pow2 (?e - 1) * of_int q \<le> pow2 (?e - 1) * pow2 ?bq"
      using qhi pow2_pos [of "?e - 1"] by (simp add: less_imp_le)
    also have "\<dots> = pow2 (?bp - 1)"
      by (simp add: pow2_add [symmetric])
    also have "\<dots> \<le> of_int p" by (rule plo)
    finally show ?thesis using qpos by (simp add: x pos_le_divide_eq)
  qed
  have hi: "x < pow2 (?e + 1)"
  proof -
    have "of_int p < pow2 ?bp" by (rule phi)
    also have "\<dots> = pow2 (?e + 1) * pow2 (?bq - 1)"
      by (simp add: pow2_add [symmetric])
    also have "\<dots> \<le> pow2 (?e + 1) * of_int q"
      using qlo pow2_pos [of "?e + 1"] by simp
    finally show ?thesis using qpos by (simp add: x pos_divide_less_eq)
  qed
  have ex: "exponent x = (if pow2 ?e \<le> x then ?e else ?e - 1)"
    by (simp add: exponent_def pq Let_def)
  show "pow2 (exponent x) \<le> x"
    using lo by (simp add: ex)
  show "x < pow2 (exponent x + 1)"
    using hi by (simp add: ex not_le)
qed

lemma round_half_even_error: "\<bar>of_int (round_half_even y) - y\<bar> \<le> 1 / 2"
proof -
  have "of_int \<lfloor>y\<rfloor> \<le> y" "y < of_int \<lfloor>y\<rfloor> + 1" by linarith+
  then show ?thesis
    by (auto simp: round_half_even_def Let_def abs_le_iff)
qed

lemma to_double_error: "\<bar>to_double x - x\<bar> \<le> \<bar>x\<bar> / 2 ^ 53"
proof (cases "x = 0")
  case True
  then show ?thesis by (simp add: to_double_def)
next
  case False
  let ?e = "exponent \<bar>x\<bar> - 52"
  let ?m = "of_int (round_half_even (\<bar>x\<bar> / pow2 ?e)) :: rat"
  from False have pos: "0 < \<bar>x\<bar>" by simp
  have td: "to_double x = sgn x * ?m * pow2 ?e"
    using False by (simp add: to_double_def Let_def)
  have "to_double x - x = sgn x * (?m * pow2 ?e - \<bar>x\<bar>)"
    by (simp add: td algebra_simps flip: abs_sgn mult_sgn_abs) (metis mult.commute mult_sgn_abs)
  then have "\<bar>to_double x - x\<bar> = \<bar>?m * pow2 ?e - \<bar>x\<bar>\<bar>"
    using False by (simp add: abs_mult)
  also have "?m * pow2 ?e - \<bar>x\<bar> = (?m - \<bar>x\<bar> / pow2 ?e) * pow2 ?e"
    using pow2_pos [of ?e] by (simp add: algebra_simps)
  also have "\<bar>\<dots>\<bar> = \<bar>?m - \<bar>x\<bar> / pow2 ?e\<bar> * pow2 ?e"
    using pow2_pos [of ?e] by (simp add: abs_mult)
  also have "\<dots> \<le> (1 / 2) * pow2 ?e"
    using round_half_even_error pow2_pos [of ?e] by (intro mult_right_mono) auto
  also have "\<dots> \<le> \<bar>x\<bar> / 2 ^ 53"
  proof -
    have "pow2 ?e * 2 ^ 52 = pow2 (exponent \<bar>x\<bar>)"
    proof -
      have "pow2 (exponent \<bar>x\<bar>) = pow2 (?e + 52)" by simp
      also have "\<dots> = pow2 ?e * pow2 52" by (rule pow2_add)
      also have "pow2 52 = 2 ^ 52" by (simp add: pow2_def)
      finally show ?thesis by simp
    qed
    also have "\<dots> \<le> \<bar>x\<bar>" using pos by (rule exponent_bounds)
    finally show ?thesis by (simp add: field_simps)
  qed
  finally show ?thesis .
qed


lemma percentage_error:
  assumes "0 \<le> r" and "0 < t"
  shows "\<bar>float_mul (truediv r t) 100 - 100 * of_int r / of_int t\<bar>
         \<le> (100 * of_int r / of_int t) / 2 ^ 51"
proof -
  define q :: rat where "q = of_int r / of_int t"
  define y where "y = to_double q"
  define p where "p = to_double (y * 100)"
  define u :: rat where "u = 1 / 2 ^ 53"
  have q: "0 \<le> q" using assms by (simp add: q_def)
  have u: "0 \<le> u" by (simp add: u_def)
  have y: "\<bar>y - q\<bar> \<le> q * u"
    using to_double_error [of q] q by (simp add: y_def u_def)
  then have ay: "\<bar>y\<bar> \<le> q + q * u"
    using q by linarith
  have "\<bar>p - y * 100\<bar> \<le> \<bar>y * 100\<bar> * u"
    using to_double_error [of "y * 100"] by (simp add: p_def u_def)
  also have "\<dots> = 100 * (\<bar>y\<bar> * u)"
    by (simp add: abs_mult)
  also have "\<dots> \<le> 100 * ((q + q * u) * u)"
    using ay u by (intro mult_left_mono mult_right_mono) auto
  finally have p: "\<bar>p - y * 100\<bar> \<le> 100 * ((q + q * u) * u)" .
  have "p - 100 * q = (p - y * 100) + 100 * (y - q)"
    by (simp add: algebra_simps)
  then have "\<bar>p - 100 * q\<bar> \<le> \<bar>p - y * 100\<bar> + \<bar>100 * (y - q)\<bar>"
    by (simp only: abs_triangle_ineq)
  also have "\<bar>100 * (y - q)\<bar> = 100 * \<bar>y - q\<bar>"
    by (simp only: abs_mult abs_numeral)
  finally have "\<bar>p - 100 * q\<bar> \<le> \<bar>p - y * 100\<bar> + 100 * \<bar>y - q\<bar>" .
  also have "\<dots> \<le> 100 * ((q + q * u) * u) + 100 * (q * u)"
    using p y by (intro add_mono mult_left_mono) auto
  also have "\<dots> = (100 * q) * (2 * u + u * u)"
    by (simp add: algebra_simps)
  also have "\<dots> \<le> (100 * q) * (1 / 2 ^ 51)"
  proof -
    have "2 * u + u * u \<le> 1 / 2 ^ 51" by (simp add: u_def)
    then show ?thesis using q by (intro mult_left_mono) auto
  qed
  finally show ?thesis
    by (simp add: float_mul_def truediv_def p_def y_def q_def)
qed

section \<open>Removing a book\<close>

text \<open>
  Claim C2. \<open>remove_book\<close> keeps, in order, exactly the books whose lower-cased title
  differs from the lower-cased argument: equality of the whole title decides, not
  containment. If some book matched, the shortened list is saved (with a successful write
  the file then holds the lines of the books that remain) and \<open>Book removed successfully!\<close>
  is printed; if none matched, nothing is saved, the file is as before and
  \<open>Book not found in your library.\<close> is printed.
\<close>

theorem remove_book_exact:
  "library (remove_book t io s) = filter (\<lambda>b. lower (title b) \<noteq> lower t) (library s)
   \<and> ((\<exists>b \<in> set (library s). lower (title b) = lower t) \<longrightarrow>
        remove_book t io s =
          say BookRemoved (save_library io
            (s\<lparr>library := filter (\<lambda>b. lower (title b) \<noteq> lower t) (library s)\<rparr>))
        \<and> file_text (remove_book t WriteOk s) =
            Some (concat (map book_line (library (remove_book t WriteOk s))))
        \<and> out (remove_book t WriteOk s) = out s @ [LibrarySaved, BookRemoved])
   \<and> (\<not> (\<exists>b \<in> set (library s). lower (title b) = lower t) \<longrightarrow>
        remove_book t io s = say BookNotFound s
        \<and> file_text (remove_book t io s) = file_text s
        \<and> out (remove_book t io s) = out s @ [BookNotFound])"
proof (intro conjI impI)
  show "library (remove_book t io s) = filter (\<lambda>b. lower (title b) \<noteq> lower t) (library s)"
    by (rule library_remove_book)
next
  assume m: "\<exists>b \<in> set (library s). lower (title b) = lower t"
  then show "remove_book t io s =
      say BookRemoved (save_library io
        (s\<lparr>library := filter (\<lambda>b. lower (title b) \<noteq> lower t) (library s)\<rparr>))"
    by (simp add: remove_book_cases)
  from m show "file_text (remove_book t WriteOk s) =
      Some (concat (map book_line (library (remove_book t WriteOk s))))"
    by (simp add: remove_book_cases save_library_def say_def)
  from m show "out (remove_book t WriteOk s) = out s @ [LibrarySaved, BookRemoved]"
    by (simp add: remove_book_cases save_library_def say_def)
next
  assume n: "\<not> (\<exists>b \<in> set (library s). lower (title b) = lower t)"
  then show "remove_book t io s = say BookNotFound s"
    by (simp add: remove_book_cases)
  from n show "file_text (remove_book t io s) = file_text s"
    by (simp add: remove_book_cases say_def)
  from n show "out (remove_book t io s) = out s @ [BookNotFound]"
    by (simp add: remove_book_cases say_def)
qed

text \<open>
  On a list holding \<open>Dune Messiah\<close> and \<open>dune\<close>, removing \<open>DUNE\<close> takes \<open>dune\<close> away, leaves
  \<open>Dune Messiah\<close> and saves; on a list holding only \<open>Dune Messiah\<close> it reports that nothing
  was found.
\<close>

theorem remove_book_exact_witness:
  "(\<exists>b \<in> set [messiah, dune_small]. lower (title b) = lower ''DUNE'')
   \<and> library (remove_book ''DUNE'' WriteOk
         \<lparr>library = [messiah, dune_small], file_text = None, out = []\<rparr>) = [messiah]
   \<and> file_text (remove_book ''DUNE'' WriteOk
         \<lparr>library = [messiah, dune_small], file_text = None, out = []\<rparr>)
       = Some (''Dune Messiah|Frank Herbert|1969|SF|Read|2024-01-03'' @ [LF])
   \<and> out (remove_book ''DUNE'' WriteOk
         \<lparr>library = [messiah, dune_small], file_text = None, out = []\<rparr>)
       = [LibrarySaved, BookRemoved]
   \<and> \<not> (\<exists>b \<in> set [messiah]. lower (title b) = lower ''DUNE'')
   \<and> remove_book ''DUNE'' WriteOk \<lparr>library = [messiah], file_text = None, out = []\<rparr>
       = \<lparr>library = [messiah], file_text = None, out = [BookNotFound]\<rparr>"
proof -
  let ?s = "\<lparr>library = [messiah, dune_small], file_text = None, out = []\<rparr>"
  let ?s' = "\<lparr>library = [messiah], file_text = None, out = []\<rparr>"
  have m: "\<exists>b \<in> set [messiah, dune_small]. lower (title b) = lower ''DUNE''"
    by code_simp
  have n: "\<not> (\<exists>b \<in> set [messiah]. lower (title b) = lower ''DUNE'')"
    by code_simp
  have f: "filter (\<lambda>b. lower (title b) \<noteq> lower ''DUNE'') [messiah, dune_small] = [messiah]"
    by code_simp
  have l: "concat (map book_line [messiah])
           = ''Dune Messiah|Frank Herbert|1969|SF|Read|2024-01-03'' @ [LF]"
    by code_simp
  note a = remove_book_exact [of "''DUNE''" WriteOk ?s, unfolded state.select_convs]
  note b = remove_book_exact [of "''DUNE''" WriteOk ?s', unfolded state.select_convs]
  from a have 1: "library (remove_book ''DUNE'' WriteOk ?s) = [messiah]"
    unfolding f by (rule conjunct1)
  from a m have 2: "file_text (remove_book ''DUNE'' WriteOk ?s)
                     = Some (concat (map book_line (library (remove_book ''DUNE'' WriteOk ?s))))"
    by blast
  from a m have 3: "out (remove_book ''DUNE'' WriteOk ?s) = [] @ [LibrarySaved, BookRemoved]"
    by blast
  from b n have 4: "remove_book ''DUNE'' WriteOk ?s' = say BookNotFound ?s'"
    by blast
  have 5: "say BookNotFound ?s' = \<lparr>library = [messiah], file_text = None, out = [BookNotFound]\<rparr>"
    by (simp add: say_def)
  from 2 have 6: "file_text (remove_book ''DUNE'' WriteOk ?s)
                  = Some (''Dune Messiah|Frank Herbert|1969|SF|Read|2024-01-03'' @ [LF])"
    unfolding 1 l .
  from 3 have 7: "out (remove_book ''DUNE'' WriteOk ?s) = [LibrarySaved, BookRemoved]"
    by simp
  from 4 have 8: "remove_book ''DUNE'' WriteOk ?s'
                  = \<lparr>library = [messiah], file_text = None, out = [BookNotFound]\<rparr>"
    unfolding 5 .
  from m n 1 6 7 8 show ?thesis by blast
qed

text \<open>
  Claim C3, as the program has it. Removing a title shortens the list by the number of books
  whose title equals it up to letter case: every such book is gone and the list is strictly
  shorter; it is shorter by exactly one when exactly one book matches. When no book
  matches, the list and the file stay as they are and \<open>Book not found in your library.\<close> is
  printed.
\<close>

theorem remove_book_count:
  "length (library (remove_book t io s))
     + length (filter (\<lambda>b. lower (title b) = lower t) (library s)) = length (library s)
   \<and> (\<forall>b \<in> set (library s). lower (title b) = lower t \<longrightarrow>
          b \<notin> set (library (remove_book t io s))
          \<and> length (library (remove_book t io s)) < length (library s))
   \<and> (length (filter (\<lambda>b. lower (title b) = lower t) (library s)) = 1 \<longrightarrow>
          length (library (remove_book t io s)) = length (library s) - 1)
   \<and> (\<not> (\<exists>b \<in> set (library s). lower (title b) = lower t) \<longrightarrow>
          library (remove_book t io s) = library s
          \<and> file_text (remove_book t io s) = file_text s
          \<and> out (remove_book t io s) = out s @ [BookNotFound])"
proof -
  let ?gone = "filter (\<lambda>b. lower (title b) = lower t) (library s)"
  have lib: "library (remove_book t io s)
             = filter (\<lambda>b. \<not> lower (title b) = lower t) (library s)"
    by (simp add: library_remove_book)
  have count: "length (library (remove_book t io s)) + length ?gone = length (library s)"
    unfolding lib by (rule length_filter_split)
  have gone: "b \<notin> set (library (remove_book t io s))
              \<and> length (library (remove_book t io s)) < length (library s)"
    if "b \<in> set (library s)" and "lower (title b) = lower t" for b
  proof -
    from that have "b \<in> set ?gone" by simp
    then have "0 < length ?gone" by (rule length_pos_if_in_set)
    with count have "length (library (remove_book t io s)) < length (library s)" by linarith
    moreover from that have "b \<notin> set (library (remove_book t io s))"
      unfolding lib by simp
    ultimately show ?thesis by simp
  qed
  have one: "length (library (remove_book t io s)) = length (library s) - 1"
    if "length ?gone = 1"
    using count that by linarith
  have none: "library (remove_book t io s) = library s
              \<and> file_text (remove_book t io s) = file_text s
              \<and> out (remove_book t io s) = out s @ [BookNotFound]"
    if "\<not> (\<exists>b \<in> set (library s). lower (title b) = lower t)"
    using that by (simp add: remove_book_cases say_def)
  from count gone one none show ?thesis by blast
qed

text \<open>
  The count does not always go down by one: with the two books \<open>dune\<close> and \<open>DUNE\<close>,
  removing \<open>Dune\<close> empties the list.
\<close>

theorem remove_book_count_counterexample:
  "lower (title \<lparr>title = ''dune'', author = ''Frank Herbert'', year = 1965, genre = ''SF'',
                  read = True, date_added = ''2024-01-02''\<rparr>) = lower ''Dune''
   \<and> length (library (remove_book ''Dune'' WriteOk
        \<lparr>library = [\<lparr>title = ''dune'', author = ''Frank Herbert'', year = 1965, genre = ''SF'',
                       read = True, date_added = ''2024-01-02''\<rparr>,
                     \<lparr>title = ''DUNE'', author = ''Frank Herbert'', year = 1965, genre = ''SF'',
                       read = False, date_added = ''2024-01-05''\<rparr>],
         file_text = None, out = []\<rparr>))
       \<noteq> length (library
        \<lparr>library = [\<lparr>title = ''dune'', author = ''Frank Herbert'', year = 1965, genre = ''SF'',
                       read = True, date_added = ''2024-01-02''\<rparr>,
                     \<lparr>title = ''DUNE'', author = ''Frank Herbert'', year = 1965, genre = ''SF'',
                       read = False, date_added = ''2024-01-05''\<rparr>],
         file_text = None, out = []\<rparr>) - 1"
  by code_simp

text \<open>
  With \<open>Dune Messiah\<close> and \<open>dune\<close> in the list, removing \<open>Dune\<close> takes one book away; with
  \<open>Dune Messiah\<close> and \<open>Emma\<close> nothing changes.
\<close>

theorem remove_book_count_witness:
  "dune_small \<in> set [messiah, dune_small]
   \<and> lower (title dune_small) = lower ''Dune''
   \<and> length (filter (\<lambda>b. lower (title b) = lower ''Dune'') [messiah, dune_small]) = 1
   \<and> dune_small \<notin> set (library (remove_book ''Dune'' WriteOk
         \<lparr>library = [messiah, dune_small], file_text = None, out = []\<rparr>))
   \<and> length (library (remove_book ''Dune'' WriteOk
         \<lparr>library = [messiah, dune_small], file_text = None, out = []\<rparr>)) = 2 - 1
   \<and> \<not> (\<exists>b \<in> set [messiah, emma]. lower (title b) = lower ''Dune'')
   \<and> library (remove_book ''Dune'' WriteOk
         \<lparr>library = [messiah, emma], file_text = None, out = []\<rparr>) = [messiah, emma]
   \<and> out (remove_book ''Dune'' WriteOk
         \<lparr>library = [messiah, emma], file_text = None, out = []\<rparr>) = [] @ [BookNotFound]"
proof -
  let ?s = "\<lparr>library = [messiah, dune_small], file_text = None, out = []\<rparr>"
  let ?s' = "\<lparr>library = [messiah, emma], file_text = None, out = []\<rparr>"
  have i: "dune_small \<in> set [messiah, dune_small]" by simp
  have m: "lower (title dune_small) = lower ''Dune''" by code_simp
  have c: "length (filter (\<lambda>b. lower (title b) = lower ''Dune'') [messiah, dune_small]) = 1"
    by code_simp
  have n: "\<not> (\<exists>b \<in> set [messiah, emma]. lower (title b) = lower ''Dune'')" by code_simp
  have len: "length [messiah, dune_small] = 2" by simp
  note a = remove_book_count [of "''Dune''" WriteOk ?s, unfolded state.select_convs len]
  note b = remove_book_count [of "''Dune''" WriteOk ?s', unfolded state.select_convs]
  from a i m have 1: "dune_small \<notin> set (library (remove_book ''Dune'' WriteOk ?s))" by blast
  from a c have 2: "length (library (remove_book ''Dune'' WriteOk ?s)) = 2 - 1" by blast
  from b n have 3: "library (remove_book ''Dune'' WriteOk ?s') = [messiah, emma]" by blast
  from b n have 4: "out (remove_book ''Dune'' WriteOk ?s') = [] @ [BookNotFound]" by blast
  from i m c n 1 2 3 4 show ?thesis by blast
qed

section \<open>Adding and searching\<close>

text \<open>
  Claim C4, as the program has it. After \<open>add_book\<close>, a title search for a query that
  equals the new title up to letter case returns what the same search returned before,
  followed by the new book. The new book is the only match exactly when no book already in
  the list has a title containing the query (up to letter case).
\<close>

theorem add_then_search:
  "lower q = lower t \<longrightarrow>
     fst (search_by_title q (add_book t a y g r today io s))
       = fst (search_by_title q s)
         @ [\<lparr>title = t, author = a, year = y, genre = g, read = r, date_added = today\<rparr>]
     \<and> (fst (search_by_title q (add_book t a y g r today io s))
          = [\<lparr>title = t, author = a, year = y, genre = g, read = r, date_added = today\<rparr>]
        \<longleftrightarrow> \<not> (\<exists>b \<in> set (library s). contains (lower (title b)) (lower q)))"
proof
  assume q: "lower q = lower t"
  let ?new = "\<lparr>title = t, author = a, year = y, genre = g, read = r, date_added = today\<rparr>"
  have c: "contains (lower t) (lower q)"
    unfolding q by (rule contains_refl)
  have e: "fst (search_by_title q (add_book t a y g r today io s))
           = fst (search_by_title q s) @ [?new]"
    using c by (simp add: search_by_title_add)
  have "fst (search_by_title q s) = [] \<longleftrightarrow>
        \<not> (\<exists>b \<in> set (library s). contains (lower (title b)) (lower q))"
    by (simp add: search_by_title_def filter_empty_conv)
  with e show "fst (search_by_title q (add_book t a y g r today io s))
                 = fst (search_by_title q s) @ [?new]
               \<and> (fst (search_by_title q (add_book t a y g r today io s)) = [?new]
                  \<longleftrightarrow> \<not> (\<exists>b \<in> set (library s). contains (lower (title b)) (lower q)))"
    by simp
qed

text \<open>
  More than one match: \<open>Dune\<close> is added to a list that holds \<open>Dune Messiah\<close>, and the search
  for \<open>DUNE\<close> returns both.
\<close>

theorem add_then_search_counterexample:
  "lower ''DUNE'' = lower ''Dune''
   \<and> fst (search_by_title ''DUNE''
     (add_book ''Dune'' ''Frank Herbert'' 1965 ''SF'' True ''2024-02-01'' WriteOk
        \<lparr>library = [\<lparr>title = ''Dune Messiah'', author = ''Frank Herbert'', year = 1969,
                       genre = ''SF'', read = True, date_added = ''2024-01-03''\<rparr>],
         file_text = None, out = []\<rparr>))
   \<noteq> [\<lparr>title = ''Dune'', author = ''Frank Herbert'', year = 1965,
        genre = ''SF'', read = True, date_added = ''2024-02-01''\<rparr>]"
  by code_simp

text \<open>
  Added to a list holding \<open>Emma\<close>, \<open>Dune\<close> is the only match for \<open>DUNE\<close>; added to a list
  holding \<open>Dune Messiah\<close>, it comes second.
\<close>

theorem add_then_search_witness:
  "lower ''DUNE'' = lower ''Dune''
   \<and> \<not> (\<exists>b \<in> set [emma]. contains (lower (title b)) (lower ''DUNE''))
   \<and> fst (search_by_title ''DUNE''
        (add_book ''Dune'' ''Frank Herbert'' 1965 ''SF'' True ''2024-01-01'' WriteOk
           \<lparr>library = [emma], file_text = None, out = []\<rparr>)) = [dune]
   \<and> fst (search_by_title ''DUNE''
        (add_book ''Dune'' ''Frank Herbert'' 1965 ''SF'' True ''2024-01-01'' WriteOk
           \<lparr>library = [messiah], file_text = None, out = []\<rparr>)) = [messiah] @ [dune]"
proof -
  let ?s = "\<lparr>library = [emma], file_text = None, out = []\<rparr>"
  let ?s' = "\<lparr>library = [messiah], file_text = None, out = []\<rparr>"
  have q: "lower ''DUNE'' = lower ''Dune''" by code_simp
  have n: "\<not> (\<exists>b \<in> set [emma]. contains (lower (title b)) (lower ''DUNE''))" by code_simp
  have d: "\<lparr>title = ''Dune'', author = ''Frank Herbert'', year = 1965, genre = ''SF'',
            read = True, date_added = ''2024-01-01''\<rparr> = dune"
    by (simp add: dune_def)
  have old: "fst (search_by_title ''DUNE'' ?s') = [messiah]" by code_simp
  note a = add_then_search [of "''DUNE''" "''Dune''" "''Frank Herbert''" 1965 "''SF''" True
      "''2024-01-01''" WriteOk ?s, unfolded state.select_convs d, rule_format, OF q]
  note b = add_then_search [of "''DUNE''" "''Dune''" "''Frank Herbert''" 1965 "''SF''" True
      "''2024-01-01''" WriteOk ?s', unfolded state.select_convs d old, rule_format, OF q]
  from a n have 1: "fst (search_by_title ''DUNE''
        (add_book ''Dune'' ''Frank Herbert'' 1965 ''SF'' True ''2024-01-01'' WriteOk ?s)) = [dune]"
    by blast
  from b have 2: "fst (search_by_title ''DUNE''
        (add_book ''Dune'' ''Frank Herbert'' 1965 ''SF'' True ''2024-01-01'' WriteOk ?s'))
        = [messiah] @ [dune]"
    by (rule conjunct1)
  from q n 1 2 show ?thesis by blast
qed

text \<open>
  Claim C10. Searching for the empty string, by title or by author, returns the whole list
  in its order; and a search with any query leaves the state as it was.
\<close>

theorem search_empty_query:
  "search_by_title [] s = (library s, s)
   \<and> search_by_author [] s = (library s, s)
   \<and> snd (search_by_title q s) = s
   \<and> snd (search_by_author q s) = s"
  by (simp add: search_by_title_def search_by_author_def lower_def contains_empty)

text \<open>
  Both searches with the empty query on a list of two books.
\<close>

theorem search_empty_query_witness:
  "search_by_title [] \<lparr>library = [dune, emma], file_text = None, out = []\<rparr>
     = ([dune, emma], \<lparr>library = [dune, emma], file_text = None, out = []\<rparr>)
   \<and> search_by_author [] \<lparr>library = [dune, emma], file_text = None, out = []\<rparr>
     = ([dune, emma], \<lparr>library = [dune, emma], file_text = None, out = []\<rparr>)"
  using search_empty_query [of "\<lparr>library = [dune, emma], file_text = None, out = []\<rparr>" "[]"]
  by simp

section \<open>Saving and loading\<close>

text \<open>
  Claim C1, as the program has it. A list of books comes back from \<open>save_library\<close> followed
  by \<open>load_library\<close> (both without a failure) book for book, in order, when every title,
  author, genre and date is free of \<open>|\<close> and of the line breaks \<open>\n\<close> and \<open>\r\<close>, no title
  begins with a white-space character and no date ends with one. The last two conditions
  are there because \<open>load_library\<close> strips every line at both ends.
\<close>

theorem save_then_load:
  "(\<forall>b \<in> set (library s).
      (\<forall>c \<in> set (title b @ author b @ genre b @ date_added b). c \<noteq> BAR \<and> c \<noteq> LF \<and> c \<noteq> CR)
      \<and> (title b \<noteq> [] \<longrightarrow> \<not> is_space (hd (title b)))
      \<and> (date_added b \<noteq> [] \<longrightarrow> \<not> is_space (last (date_added b))))
   \<longrightarrow> library (load_library ReadOk (save_library WriteOk s)) = library s"
proof
  let ?bs = "library s"
  let ?text = "concat (map book_line ?bs)"
  let ?saved = "save_library WriteOk s"
  assume ok: "\<forall>b \<in> set ?bs.
      (\<forall>c \<in> set (title b @ author b @ genre b @ date_added b). c \<noteq> BAR \<and> c \<noteq> LF \<and> c \<noteq> CR)
      \<and> (title b \<noteq> [] \<longrightarrow> \<not> is_space (hd (title b)))
      \<and> (date_added b \<noteq> [] \<longrightarrow> \<not> is_space (last (date_added b)))"
  have saved: "file_text ?saved = Some ?text"
    by (simp add: save_library_def say_def)
  have "CR \<notin> set (book_line b)" if "b \<in> set ?bs" for b
    using ok that by (intro CR_notin_book_line) auto
  then have "CR \<notin> set ?text" by auto
  then have nl: "universal_newlines ?text = ?text"
    by (rule universal_newlines_id)
  have "\<exists>body. book_line b = body @ [LF] \<and> LF \<notin> set body" if "b \<in> set ?bs" for b
  proof -
    have "LF \<notin> set (line_body b)"
      using ok that by (intro LF_notin_line_body) auto
    then show ?thesis using book_line_body by blast
  qed
  then have lines: "text_lines ?text = map book_line ?bs"
    by (intro text_lines_concat) blast
  have "foldl load_line (?saved\<lparr>library := []\<rparr>) (map book_line ?bs)
        = (?saved\<lparr>library := []\<rparr>)\<lparr>library := library (?saved\<lparr>library := []\<rparr>) @ ?bs\<rparr>"
    using ok by (intro foldl_load_line_book_lines) auto
  then have "library (foldl load_line (?saved\<lparr>library := []\<rparr>) (map book_line ?bs)) = ?bs"
    by simp
  then show "library (load_library ReadOk ?saved) = ?bs"
    by (simp add: load_library_def saved nl lines Let_def library_say)
qed

text \<open>
  Without them the books differ: a title typed with a leading blank has no \<open>|\<close> in it, and
  it is read back without the blank.
\<close>

theorem save_then_load_counterexample:
  "BAR \<notin> set '' Dune'' \<and> BAR \<notin> set ''Frank Herbert'' \<and> BAR \<notin> set ''SF''
   \<and> library (load_library ReadOk (save_library WriteOk
        \<lparr>library = [\<lparr>title = '' Dune'', author = ''Frank Herbert'', year = 1965, genre = ''SF'',
                       read = True, date_added = ''2024-01-01''\<rparr>],
         file_text = None, out = []\<rparr>))
     = [\<lparr>title = ''Dune'', author = ''Frank Herbert'', year = 1965, genre = ''SF'',
          read = True, date_added = ''2024-01-01''\<rparr>]
   \<and> [\<lparr>title = ''Dune'', author = ''Frank Herbert'', year = 1965, genre = ''SF'',
          read = True, date_added = ''2024-01-01''\<rparr>]
     \<noteq> [\<lparr>title = '' Dune'', author = ''Frank Herbert'', year = 1965, genre = ''SF'',
          read = True, date_added = ''2024-01-01''\<rparr>]"
  by code_simp

text \<open>
  Two sample books meet the conditions and come back unchanged.
\<close>

theorem save_then_load_witness:
  "BAR \<notin> set (title dune @ author dune @ genre dune @ date_added dune)
   \<and> LF \<notin> set (title dune @ author dune @ genre dune @ date_added dune)
   \<and> CR \<notin> set (title dune @ author dune @ genre dune @ date_added dune)
   \<and> \<not> is_space (hd (title dune)) \<and> \<not> is_space (last (date_added dune))
   \<and> BAR \<notin> set (title emma @ author emma @ genre emma @ date_added emma)
   \<and> LF \<notin> set (title emma @ author emma @ genre emma @ date_added emma)
   \<and> CR \<notin> set (title emma @ author emma @ genre emma @ date_added emma)
   \<and> \<not> is_space (hd (title emma)) \<and> \<not> is_space (last (date_added emma))
   \<and> library (load_library ReadOk (save_library WriteOk
        \<lparr>library = [dune, emma], file_text = None, out = []\<rparr>)) = [dune, emma]"
proof -
  let ?s = "\<lparr>library = [dune, emma], file_text = None, out = []\<rparr>"
  have d: "BAR \<notin> set (title dune @ author dune @ genre dune @ date_added dune)"
    "LF \<notin> set (title dune @ author dune @ genre dune @ date_added dune)"
    "CR \<notin> set (title dune @ author dune @ genre dune @ date_added dune)"
    "\<not> is_space (hd (title dune))" "\<not> is_space (last (date_added dune))"
    by code_simp+
  have e: "BAR \<notin> set (title emma @ author emma @ genre emma @ date_added emma)"
    "LF \<notin> set (title emma @ author emma @ genre emma @ date_added emma)"
    "CR \<notin> set (title emma @ author emma @ genre emma @ date_added emma)"
    "\<not> is_space (hd (title emma))" "\<not> is_space (last (date_added emma))"
    by code_simp+
  have h: "\<forall>b \<in> set [dune, emma].
      (\<forall>c \<in> set (title b @ author b @ genre b @ date_added b). c \<noteq> BAR \<and> c \<noteq> LF \<and> c \<noteq> CR)
      \<and> (title b \<noteq> [] \<longrightarrow> \<not> is_space (hd (title b)))
      \<and> (date_added b \<noteq> [] \<longrightarrow> \<not> is_space (last (date_added b)))"
    using d e by auto
  note a = save_then_load [where s = ?s, unfolded state.select_convs, THEN mp, OF h]
  from d e a show ?thesis by blast
qed

text \<open>
  Claim C8. Saving twice in a row, with successful writes and nothing in between, leaves
  the same file text as saving once: the text is determined by the list of books alone.
\<close>

theorem save_library_twice:
  "file_text (save_library WriteOk (save_library WriteOk s)) = file_text (save_library WriteOk s)
   \<and> file_text (save_library WriteOk s) = Some (concat (map book_line (library s)))"
  by (simp add: save_library_def say_def)

text \<open>
  The text written for a list of two books, after two saves.
\<close>

theorem save_library_twice_witness:
  "file_text (save_library WriteOk (save_library WriteOk
      \<lparr>library = [dune, emma], file_text = None, out = []\<rparr>))
   = Some (''Dune|Frank Herbert|1965|SF|Read|2024-01-01'' @ [LF]
           @ ''Emma|Jane Austen|1815|Novel|Unread|2024-01-04'' @ [LF])"
proof -
  let ?s = "\<lparr>library = [dune, emma], file_text = None, out = []\<rparr>"
  have l: "concat (map book_line [dune, emma])
           = ''Dune|Frank Herbert|1965|SF|Read|2024-01-01'' @ [LF]
             @ ''Emma|Jane Austen|1815|Novel|Unread|2024-01-04'' @ [LF]"
    by code_simp
  note a = save_library_twice [of ?s, unfolded state.select_convs l]
  from a show ?thesis by simp
qed

text \<open>
  Claim C6. A line that splits into fewer than six fields leaves the state as it is. A
  line with six fields or more whose year is rejected by \<open>int\<close> appends a book with year 0
  and prints the warning. Neither stops the loop: after a successful read the list is the
  concatenation, line by line, of what each line of the file contributes on its own.
\<close>

theorem load_skips_and_defaults:
  "(length (split BAR (strip line)) < 6 \<longrightarrow> load_line s line = s)
   \<and> (split BAR (strip line) = t # a # y # g # rs # d # rest \<and> int_py y = None \<longrightarrow>
        load_line s line =
          (say (InvalidYear y t) s)
            \<lparr>library := library s
               @ [\<lparr>title = t, author = a, year = 0, genre = g, read = (rs = ''Read''),
                   date_added = d\<rparr>]\<rparr>)
   \<and> (file_text s = Some content \<longrightarrow>
        library (load_library ReadOk s)
        = concat (map (\<lambda>l. library (load_line (s\<lparr>library := []\<rparr>) l))
                      (text_lines (universal_newlines content))))"
proof (intro conjI impI)
  assume "length (split BAR (strip line)) < 6"
  then show "load_line s line = s" by (rule load_line_short)
next
  assume "split BAR (strip line) = t # a # y # g # rs # d # rest \<and> int_py y = None"
  then show "load_line s line =
          (say (InvalidYear y t) s)
            \<lparr>library := library s
               @ [\<lparr>title = t, author = a, year = 0, genre = g, read = (rs = ''Read''),
                   date_added = d\<rparr>]\<rparr>"
    by (simp add: load_line_fields)
next
  assume "file_text s = Some content"
  then have "library (load_library ReadOk s)
             = library (foldl load_line (s\<lparr>library := []\<rparr>) (text_lines (universal_newlines content)))"
    by (simp add: load_library_def Let_def library_say)
  also have "\<dots> = library (s\<lparr>library := []\<rparr>)
        @ concat (map (\<lambda>l. library (load_line (s\<lparr>library := []\<rparr>) l))
                      (text_lines (universal_newlines content)))"
    by (rule library_foldl_load_line)
  finally show "library (load_library ReadOk s)
        = concat (map (\<lambda>l. library (load_line (s\<lparr>library := []\<rparr>) l))
                      (text_lines (universal_newlines content)))"
    by simp
qed

text \<open>
  The line \<open>OnlyTwo|Fields\<close> is skipped, the year \<open>abcd\<close> becomes 0 with a warning, and the
  file holding both and a third, valid line loads as two books.
\<close>

theorem load_skips_and_defaults_witness:
  "length (split BAR (strip (''OnlyTwo|Fields'' @ [LF]))) < 6
   \<and> load_line \<lparr>library = [emma], file_text = None, out = []\<rparr> (''OnlyTwo|Fields'' @ [LF])
       = \<lparr>library = [emma], file_text = None, out = []\<rparr>
   \<and> split BAR (strip (''Dune|Frank Herbert|abcd|SF|Read|2024-01-01'' @ [LF]))
       = ''Dune'' # ''Frank Herbert'' # ''abcd'' # ''SF'' # ''Read'' # ''2024-01-01'' # []
   \<and> int_py ''abcd'' = None
   \<and> load_line \<lparr>library = [emma], file_text = None, out = []\<rparr>
        (''Dune|Frank Herbert|abcd|SF|Read|2024-01-01'' @ [LF])
       = \<lparr>library = [emma, dune\<lparr>year := 0\<rparr>], file_text = None,
          out = [InvalidYear ''abcd'' ''Dune'']\<rparr>
   \<and> library (load_library ReadOk \<lparr>library = [], file_text = Some sample_file, out = []\<rparr>)
       = [dune\<lparr>year := 0\<rparr>, emma]"
proof -
  let ?s = "\<lparr>library = [emma], file_text = None, out = []\<rparr>"
  let ?s' = "\<lparr>library = [], file_text = Some sample_file, out = []\<rparr>"
  let ?bad = "''OnlyTwo|Fields'' @ [LF]"
  let ?line = "''Dune|Frank Herbert|abcd|SF|Read|2024-01-01'' @ [LF]"
  have short: "length (split BAR (strip ?bad)) < 6" by code_simp
  have parts: "split BAR (strip ?line)
       = ''Dune'' # ''Frank Herbert'' # ''abcd'' # ''SF'' # ''Read'' # ''2024-01-01'' # []"
    by code_simp
  have year: "int_py ''abcd'' = None" by code_simp
  have fl: "file_text ?s' = Some sample_file" by simp
  have rec: "(say (InvalidYear ''abcd'' ''Dune'') ?s)
            \<lparr>library := library ?s
               @ [\<lparr>title = ''Dune'', author = ''Frank Herbert'', year = 0, genre = ''SF'',
                   read = (''Read'' = ''Read''), date_added = ''2024-01-01''\<rparr>]\<rparr>
       = \<lparr>library = [emma, dune\<lparr>year := 0\<rparr>], file_text = None,
          out = [InvalidYear ''abcd'' ''Dune'']\<rparr>"
    by (simp add: say_def dune_def)
  have all: "concat (map (\<lambda>l. library (load_line (?s'\<lparr>library := []\<rparr>) l))
                      (text_lines (universal_newlines sample_file)))
       = [dune\<lparr>year := 0\<rparr>, emma]"
    by code_simp
  note a = load_skips_and_defaults [where line = ?bad and s = ?s]
  note b = load_skips_and_defaults [where line = ?line and s = ?s and t = "''Dune''"
      and a = "''Frank Herbert''" and y = "''abcd''" and g = "''SF''" and rs = "''Read''"
      and d = "''2024-01-01''" and rest = "[]"]
  note c = load_skips_and_defaults [where s = ?s' and content = sample_file]
  from a short have 1: "load_line ?s ?bad = ?s" by blast
  from b parts year have "load_line ?s ?line = (say (InvalidYear ''abcd'' ''Dune'') ?s)
            \<lparr>library := library ?s
               @ [\<lparr>title = ''Dune'', author = ''Frank Herbert'', year = 0, genre = ''SF'',
                   read = (''Read'' = ''Read''), date_added = ''2024-01-01''\<rparr>]\<rparr>"
    by blast
  then have 2: "load_line ?s ?line = \<lparr>library = [emma, dune\<lparr>year := 0\<rparr>], file_text = None,
          out = [InvalidYear ''abcd'' ''Dune'']\<rparr>"
    unfolding rec .
  from c fl have "library (load_library ReadOk ?s')
       = concat (map (\<lambda>l. library (load_line (?s'\<lparr>library := []\<rparr>) l))
                      (text_lines (universal_newlines sample_file)))"
    by blast
  then have 3: "library (load_library ReadOk ?s') = [dune\<lparr>year := 0\<rparr>, emma]"
    unfolding all .
  from short parts year 1 2 3 show ?thesis by blast
qed

text \<open>
  Claim C9. A line with six fields or more appends one book, and that book is marked read
  exactly when the fifth field is the string \<open>Read\<close>, letter for letter.
\<close>

theorem read_flag_exact:
  "split BAR (strip line) = t # a # y # g # rs # d # rest \<longrightarrow>
     (\<exists>b. library (load_line s line) = library s @ [b] \<and> read b = (rs = ''Read''))"
proof
  assume p: "split BAR (strip line) = t # a # y # g # rs # d # rest"
  let ?b = "\<lparr>title = t, author = a, year = (case int_py y of Some n \<Rightarrow> n | None \<Rightarrow> 0),
              genre = g, read = (rs = ''Read''), date_added = d\<rparr>"
  have "library (load_line s line) = library s @ [?b]"
    by (simp add: load_line_fields [OF p] say_def split: option.splits)
  moreover have "read ?b = (rs = ''Read'')" by simp
  ultimately show "\<exists>b. library (load_line s line) = library s @ [b] \<and> read b = (rs = ''Read'')"
    by blast
qed

text \<open>
  The status \<open>READ\<close> gives an unread book, the status \<open>Read\<close> a read one.
\<close>

theorem read_flag_exact_witness:
  "split BAR (strip (''Emma|Jane Austen|1815|Novel|READ|2024-01-04'' @ [LF]))
     = ''Emma'' # ''Jane Austen'' # ''1815'' # ''Novel'' # ''READ'' # ''2024-01-04'' # []
   \<and> (\<exists>b. library (load_line \<lparr>library = [], file_text = None, out = []\<rparr>
                      (''Emma|Jane Austen|1815|Novel|READ|2024-01-04'' @ [LF])) = [] @ [b]
          \<and> read b = (''READ'' = ''Read''))
   \<and> split BAR (strip (''Dune|Frank Herbert|1965|SF|Read|2024-01-01'' @ [LF]))
     = ''Dune'' # ''Frank Herbert'' # ''1965'' # ''SF'' # ''Read'' # ''2024-01-01'' # []
   \<and> (\<exists>b. library (load_line \<lparr>library = [], file_text = None, out = []\<rparr>
                      (''Dune|Frank Herbert|1965|SF|Read|2024-01-01'' @ [LF])) = [] @ [b]
          \<and> read b = (''Read'' = ''Read''))"
proof -
  let ?s = "\<lparr>library = [], file_text = None, out = []\<rparr>"
  let ?l1 = "''Emma|Jane Austen|1815|Novel|READ|2024-01-04'' @ [LF]"
  let ?l2 = "''Dune|Frank Herbert|1965|SF|Read|2024-01-01'' @ [LF]"
  have p1: "split BAR (strip ?l1)
     = ''Emma'' # ''Jane Austen'' # ''1815'' # ''Novel'' # ''READ'' # ''2024-01-04'' # []"
    by code_simp
  have p2: "split BAR (strip ?l2)
     = ''Dune'' # ''Frank Herbert'' # ''1965'' # ''SF'' # ''Read'' # ''2024-01-01'' # []"
    by code_simp
  note a = read_flag_exact [where line = ?l1 and s = ?s, unfolded state.select_convs,
      rule_format, OF p1]
  note b = read_flag_exact [where line = ?l2 and s = ?s, unfolded state.select_convs,
      rule_format, OF p2]
  from p1 a p2 b show ?thesis by blast
qed

text \<open>
  Claim C7. When reading an existing file fails, the list of books is empty afterwards,
  however many lines the loop had already handled, and the error is printed. When writing
  fails, the state returned is the one before with the error message added and the file in
  whatever condition the failure left it: the list of books is the same, and the method
  returns normally.
\<close>

theorem io_failure_catalog:
  "(file_text s = Some content \<longrightarrow>
      library (load_library (ReadFails n) s) = []
      \<and> out (load_library (ReadFails n) s)
          = out (foldl load_line (s\<lparr>library := []\<rparr>)
                   (take n (text_lines (universal_newlines content)))) @ [ErrorLoading])
   \<and> save_library (WriteFails f) s = s\<lparr>file_text := f, out := out s @ [ErrorSaving]\<rparr>
   \<and> library (save_library (WriteFails f) s) = library s"
  by (simp add: load_library_def save_library_def say_def Let_def)

text \<open>
  A read that fails after two lines had appended one book still ends with an empty list;
  a failed write keeps the list.
\<close>

theorem io_failure_catalog_witness:
  "file_text \<lparr>library = [emma], file_text = Some sample_file, out = []\<rparr> = Some sample_file
   \<and> library (foldl load_line \<lparr>library = [], file_text = Some sample_file, out = []\<rparr>
               (take 2 (text_lines (universal_newlines sample_file)))) = [dune\<lparr>year := 0\<rparr>]
   \<and> library (load_library (ReadFails 2)
               \<lparr>library = [emma], file_text = Some sample_file, out = []\<rparr>) = []
   \<and> library (save_library (WriteFails None)
               \<lparr>library = [emma], file_text = Some sample_file, out = []\<rparr>) = [emma]"
proof -
  let ?s = "\<lparr>library = [emma], file_text = Some sample_file, out = []\<rparr>"
  have fl: "file_text ?s = Some sample_file" by simp
  have part: "library (foldl load_line \<lparr>library = [], file_text = Some sample_file, out = []\<rparr>
               (take 2 (text_lines (universal_newlines sample_file)))) = [dune\<lparr>year := 0\<rparr>]"
    by code_simp
  note a = io_failure_catalog [where s = ?s and content = sample_file and n = 2 and f = None]
  from a fl have 1: "library (load_library (ReadFails 2) ?s) = []" by blast
  from a have 2: "library (save_library (WriteFails None) ?s) = library ?s" by blast
  then have 3: "library (save_library (WriteFails None) ?s) = [emma]" by simp
  from fl part 1 3 show ?thesis by blast
qed

section \<open>Statistics\<close>

lemma seventy_five: "format_1f (float_mul (truediv 3 4) 100) = ''75.0''"
  by code_simp

text \<open>
  Claim C5, as the program has it. For an empty list \<open>display_statistics\<close> prints only
  \<open>Your library is empty.\<close>: no total, no count of books read, no percentage. For a list
  that is not empty it prints the number of books, the number of books whose read flag is
  set, and the float \<open>(read / total) * 100\<close> with one decimal. That float differs from the
  exact \<open>100 * read / total\<close> by at most the fraction \<open>2\<^sup>-\<^sup>5\<^sup>1\<close> of it. With 4 books of which 3
  are read the three figures are 4, 3 and \<open>75.0\<close>. The list and the file are not touched.
\<close>

theorem display_statistics_report:
  "(library s = [] \<longrightarrow> display_statistics s = say LibraryEmpty s)
   \<and> (library s \<noteq> [] \<longrightarrow>
        out (display_statistics s)
        = out s @ [TotalBooks (length (library s)),
                   BooksRead (length (filter read (library s))),
                   PercentageRead (format_1f (float_mul
                     (truediv (int (length (filter read (library s)))) (int (length (library s))))
                     100))])
   \<and> (library s \<noteq> [] \<longrightarrow>
        \<bar>float_mul (truediv (int (length (filter read (library s)))) (int (length (library s))))
           100
         - 100 * of_nat (length (filter read (library s))) / of_nat (length (library s))\<bar>
        \<le> (100 * of_nat (length (filter read (library s))) / of_nat (length (library s)))
           / 2 ^ 51)
   \<and> (length (library s) = 4 \<and> length (filter read (library s)) = 3 \<longrightarrow>
        out (display_statistics s)
        = out s @ [TotalBooks 4, BooksRead 3, PercentageRead ''75.0''])
   \<and> library (display_statistics s) = library s
   \<and> file_text (display_statistics s) = file_text s"
proof (intro conjI impI)
  assume "library s = []"
  then show "display_statistics s = say LibraryEmpty s"
    by (simp add: display_statistics_def)
next
  assume "library s \<noteq> []"
  then show "out (display_statistics s)
        = out s @ [TotalBooks (length (library s)),
                   BooksRead (length (filter read (library s))),
                   PercentageRead (format_1f (float_mul
                     (truediv (int (length (filter read (library s)))) (int (length (library s))))
                     100))]"
    by (simp add: display_statistics_def Let_def say_def)
next
  assume "library s \<noteq> []"
  then have "0 \<le> int (length (filter read (library s)))" and "0 < int (length (library s))"
    by simp_all
  then have "\<bar>float_mul (truediv (int (length (filter read (library s))))
                            (int (length (library s)))) 100
         - 100 * of_int (int (length (filter read (library s))))
           / of_int (int (length (library s)))\<bar>
        \<le> (100 * of_int (int (length (filter read (library s))))
             / of_int (int (length (library s)))) / 2 ^ 51"
    by (rule percentage_error)
  then show "\<bar>float_mul (truediv (int (length (filter read (library s))))
                            (int (length (library s)))) 100
         - 100 * of_nat (length (filter read (library s))) / of_nat (length (library s))\<bar>
        \<le> (100 * of_nat (length (filter read (library s))) / of_nat (length (library s)))
           / 2 ^ 51"
    by (simp only: of_int_of_nat_eq)
next
  assume "length (library s) = 4 \<and> length (filter read (library s)) = 3"
  then show "out (display_statistics s)
        = out s @ [TotalBooks 4, BooksRead 3, PercentageRead ''75.0'']"
    by (simp add: display_statistics_def Let_def say_def seventy_five)
next
  show "library (display_statistics s) = library s"
    by (simp add: display_statistics_def Let_def say_def)
  show "file_text (display_statistics s) = file_text s"
    by (simp add: display_statistics_def Let_def say_def)
qed

text \<open>
  The empty list gets no figures at all. And the percentage is the product of the rounded
  quotient with 100, which is not always the float \<open>100 * read / total\<close>: with 23 books read
  out of 80 the program prints \<open>28.7\<close>, while \<open>100 * 23 / 80\<close> is 28.75 and prints as \<open>28.8\<close>.
\<close>

theorem display_statistics_report_counterexample:
  "out (display_statistics \<lparr>library = [], file_text = None, out = []\<rparr>) = [LibraryEmpty]
   \<and> TotalBooks 0 \<notin> set (out (display_statistics \<lparr>library = [], file_text = None, out = []\<rparr>))
   \<and> BooksRead 0 \<notin> set (out (display_statistics \<lparr>library = [], file_text = None, out = []\<rparr>))
   \<and> out (display_statistics
        \<lparr>library = replicate 23 \<lparr>title = ''Dune'', author = ''Frank Herbert'', year = 1965,
                                  genre = ''SF'', read = True, date_added = ''2024-01-01''\<rparr>
                    @ replicate 57 \<lparr>title = ''Emma'', author = ''Jane Austen'', year = 1815,
                                    genre = ''Novel'', read = False, date_added = ''2024-01-04''\<rparr>,
         file_text = None, out = []\<rparr>)
     = [TotalBooks 80, BooksRead 23, PercentageRead ''28.7'']
   \<and> format_1f (truediv (100 * 23) 80) = ''28.8''"
  by code_simp

text \<open>
  The empty list, and four sample books of which three are read.
\<close>

theorem display_statistics_report_witness:
  "library \<lparr>library = [], file_text = None, out = []\<rparr> = []
   \<and> display_statistics \<lparr>library = [], file_text = None, out = []\<rparr>
       = \<lparr>library = [], file_text = None, out = [LibraryEmpty]\<rparr>
   \<and> length (library \<lparr>library = [dune, emma, messiah, dune_small], file_text = None, out = []\<rparr>) = 4
   \<and> length (filter read
        (library \<lparr>library = [dune, emma, messiah, dune_small], file_text = None, out = []\<rparr>)) = 3
   \<and> out (display_statistics
        \<lparr>library = [dune, emma, messiah, dune_small], file_text = None, out = []\<rparr>)
       = [] @ [TotalBooks 4, BooksRead 3, PercentageRead ''75.0'']"
proof -
  let ?e = "\<lparr>library = [], file_text = None, out = []\<rparr>"
  let ?s = "\<lparr>library = [dune, emma, messiah, dune_small], file_text = None, out = []\<rparr>"
  have e: "library ?e = []" by simp
  have n: "length (library ?s) = 4" by simp
  have r: "length (filter read (library ?s)) = 3" by code_simp
  have o: "out ?s = []" by simp
  note a = display_statistics_report [where s = ?e]
  note b = display_statistics_report [where s = ?s]
  from a e have "display_statistics ?e = say LibraryEmpty ?e" by blast
  then have 1: "display_statistics ?e = \<lparr>library = [], file_text = None, out = [LibraryEmpty]\<rparr>"
    by (simp add: say_def)
  from b n r have "out (display_statistics ?s)
      = out ?s @ [TotalBooks 4, BooksRead 3, PercentageRead ''75.0'']"
    by blast
  then have 2: "out (display_statistics ?s)
      = [] @ [TotalBooks 4, BooksRead 3, PercentageRead ''75.0'']"
    unfolding o .
  from e 1 n r 2 show ?thesis by blast
qed

end
